theory Spec2Isabelle
  imports Main
begin

section \<open>Python string operations used by app.py\<close>

text \<open>
  A Python \<open>str\<close> is modelled as a \<open>string\<close>, one \<open>char\<close> per code point; the
  model therefore covers the code points below 256 (Latin-1). The character classes
  below are those of \<open>str.isspace\<close> and \<open>str.isdigit\<close> on that range.
\<close>

definition newline :: char where
  "newline = CHR 0x0A"

definition whitespace_chars :: string where
  "whitespace_chars =
     [CHR 0x09, CHR 0x0A, CHR 0x0B, CHR 0x0C, CHR 0x0D, CHR 0x1C, CHR 0x1D, CHR 0x1E,
      CHR 0x1F, CHR 0x20, CHR 0x85, CHR 0xA0]"

definition isspace_char :: "char \<Rightarrow> bool" where
  "isspace_char c = (c \<in> set whitespace_chars)"

definition decimal_chars :: string where
  "decimal_chars = ''0123456789''"

text \<open>\<open>str.isdigit\<close> also accepts the superscript digits U+00B2, U+00B3 and U+00B9.\<close>

definition digit_chars :: string where
  "digit_chars = decimal_chars @ [CHR 0xB2, CHR 0xB3, CHR 0xB9]"

definition isdigit_char :: "char \<Rightarrow> bool" where
  "isdigit_char c = (c \<in> set digit_chars)"

text \<open>\<open>s.isdigit()\<close>: at least one character, and every character is a digit.\<close>

definition py_isdigit :: "string \<Rightarrow> bool" where
  "py_isdigit s = (s \<noteq> [] \<and> list_all isdigit_char s)"

text \<open>\<open>s.strip()\<close>: remove whitespace at both ends.\<close>

definition strip :: "string \<Rightarrow> string" where
  "strip s = rev (dropWhile isspace_char (rev (dropWhile isspace_char s)))"

text \<open>\<open>s.replace(a, b)\<close> for one-character \<open>a\<close> and \<open>b\<close>.\<close>

definition replace_char :: "char \<Rightarrow> char \<Rightarrow> string \<Rightarrow> string" where
  "replace_char a b s = map (\<lambda>c. if c = a then b else c) s"

text \<open>
  \<open>s.split(sep)\<close> for a one-character separator: every occurrence of the separator
  ends a piece, and the result always has at least one piece.
\<close>

fun split_on :: "char \<Rightarrow> string \<Rightarrow> string list" where
  "split_on sep [] = [[]]"
| "split_on sep (c # cs) =
     (if c = sep then [] # split_on sep cs
      else (case split_on sep cs of
              [] \<Rightarrow> [[c]]
            | p # ps \<Rightarrow> (c # p) # ps))"

text \<open>\<open>s.lower()\<close>: the letters A-Z and the Latin-1 capitals move up by 32.\<close>

definition lower_char :: "char \<Rightarrow> char" where
  "lower_char c =
     (let n = (of_char c :: nat)
      in if (65 \<le> n \<and> n \<le> 90) \<or> (192 \<le> n \<and> n \<le> 214) \<or> (216 \<le> n \<and> n \<le> 222)
         then char_of (n + 32) else c)"

definition lower :: "string \<Rightarrow> string" where
  "lower s = map lower_char s"

text \<open>\<open>sub in s\<close> for strings: \<open>sub\<close> occurs as a contiguous block of \<open>s\<close>.\<close>

fun starts_with :: "string \<Rightarrow> string \<Rightarrow> bool" where
  "starts_with [] s = True"
| "starts_with (p # ps) [] = False"
| "starts_with (p # ps) (c # cs) = (p = c \<and> starts_with ps cs)"

fun contains :: "string \<Rightarrow> string \<Rightarrow> bool" where
  "contains sub [] = (sub = [])"
| "contains sub (c # cs) = (starts_with sub (c # cs) \<or> contains sub cs)"

datatype error = IndexError | ValueError | IllegalCharacterError | ExternalError string

section \<open>transcribe_text_to_table\<close>

text \<open>
  Lines 48-52 and 58-62: the line after the \<open>.\<close> to \<open>:\<close> replacement, the test for
  \<open>/\<close>, the split on \<open>:\<close> and the test \<open>len(parts) < 2\<close>. The result is
  \<open>(parts[0], parts[1])\<close> for a line that is processed and \<open>None\<close> for a line
  that is skipped.
\<close>

definition line_parts :: "string \<Rightarrow> (string \<times> string) option" where
  "line_parts line =
     (let line' = replace_char (CHR ''.'') (CHR '':'') line
      in if CHR ''/'' \<in> set line' then
           (case split_on (CHR '':'') line' of
              p0 # p1 # rest \<Rightarrow> Some (p0, p1)
            | _ \<Rightarrow> None)
         else None)"

text \<open>
  Lines 53-54 and 65-67: \<open>parts[1].strip().split('/')\<close>, keeping the stripped pieces
  that are digits only or empty.
\<close>

definition numeric_pieces :: "string \<Rightarrow> string list" where
  "numeric_pieces p1 =
     map strip (filter (\<lambda>s. py_isdigit (strip s) \<or> strip s = [])
                       (split_on (CHR ''/'') (strip p1)))"

text \<open>The first loop (lines 47-55).\<close>

fun count_sets :: "string list \<Rightarrow> nat \<Rightarrow> nat" where
  "count_sets [] max_sets = max_sets"
| "count_sets (line # lines) max_sets =
     (case line_parts line of
        None \<Rightarrow> count_sets lines max_sets
      | Some (p0, p1) \<Rightarrow> count_sets lines (max max_sets (length (numeric_pieces p1))))"

text \<open>Lines 69-70: \<open>while len(sets) < max_sets: sets.append('')\<close>.\<close>

function pad_sets :: "string list \<Rightarrow> nat \<Rightarrow> string list" where
  "pad_sets sets max_sets =
     (if length sets < max_sets then pad_sets (sets @ [[]]) max_sets else sets)"
  by pat_completeness auto
termination
  by (relation "measure (\<lambda>(sets, max_sets). max_sets - length sets)") auto

declare pad_sets.simps [simp del]

text \<open>
  Lines 72-74: \<open>parts[1].split('(')[1].split(')')[0]\<close> when \<open>(\<close> occurs in
  \<open>parts[1]\<close>, the empty string otherwise. Each index is a possible IndexError.
\<close>

definition extra_info_of :: "string \<Rightarrow> error + string" where
  "extra_info_of p1 =
     (if CHR ''('' \<in> set p1 then
        (case split_on (CHR ''('') p1 of
           a # b # rest \<Rightarrow>
             (case split_on (CHR '')'') b of
                [] \<Rightarrow> Inl IndexError
              | x # xs \<Rightarrow> Inr x)
         | _ \<Rightarrow> Inl IndexError)
      else Inr [])"

text \<open>
  The second loop (lines 57-79). A row is the list
  \<open>[exercise] + sets + [extra_info]\<close>, as in the source.
\<close>

fun build_rows :: "nat \<Rightarrow> string list \<Rightarrow> string list list \<Rightarrow> error + string list list" where
  "build_rows max_sets [] data = Inr data"
| "build_rows max_sets (line # lines) data =
     (case line_parts line of
        None \<Rightarrow> build_rows max_sets lines data
      | Some (p0, p1) \<Rightarrow>
          (let exercise = strip p0;
               sets = pad_sets (numeric_pieces p1) max_sets
           in case extra_info_of p1 of
                Inl e \<Rightarrow> Inl e
              | Inr extra_info \<Rightarrow>
                  build_rows max_sets lines (data @ [[exercise] @ sets @ [extra_info]])))"

definition transcribe_lines :: "string list \<Rightarrow> error + (string list list \<times> nat)" where
  "transcribe_lines lines =
     (let max_sets = count_sets lines 0
      in case build_rows max_sets lines [] of
           Inl e \<Rightarrow> Inl e
         | Inr data \<Rightarrow> Inr (data, max_sets))"

definition transcribe_text_to_table :: "string \<Rightarrow> error + (string list list \<times> nat)" where
  "transcribe_text_to_table text = transcribe_lines (split_on newline text)"

section \<open>extract_workout_title_and_date\<close>

definition months :: "string list" where
  "months = [''jan'', ''feb'', ''mar'', ''apr'', ''may'', ''jun'',
             ''jul'', ''aug'', ''sep'', ''oct'', ''nov'', ''dec'']"

text \<open>The test of line 184 on the lowered, stripped line.\<close>

definition looks_like_date :: "string \<Rightarrow> bool" where
  "looks_like_date line_lower =
     (contains ''date'' line_lower
      \<or> list_ex (\<lambda>month. contains month line_lower) months
      \<or> list_ex isdigit_char line_lower)"

text \<open>The test of line 188, apart from \<open>not workout_title\<close>.\<close>

definition looks_like_title :: "string \<Rightarrow> bool" where
  "looks_like_title line_lower =
     (\<not> list_ex isdigit_char line_lower \<and> CHR ''/'' \<notin> set line_lower)"

text \<open>
  The loop of lines 180-193 with its two variables; the \<open>break\<close> is the branch that
  returns without looking at the remaining lines.
\<close>

fun scan_lines :: "string list \<Rightarrow> string \<Rightarrow> string \<Rightarrow> string \<times> string" where
  "scan_lines [] workout_title workout_date = (workout_title, workout_date)"
| "scan_lines (line # lines) workout_title workout_date =
     (let line_lower = strip (lower line);
          workout_date' = (if looks_like_date line_lower then strip line else workout_date);
          workout_title' = (if workout_title = [] \<and> looks_like_title line_lower
                            then strip line else workout_title)
      in if workout_title' \<noteq> [] \<and> workout_date' \<noteq> []
         then (workout_title', workout_date')
         else scan_lines lines workout_title' workout_date')"

definition extract_workout_title_and_date :: "string \<Rightarrow> string" where
  "extract_workout_title_and_date text =
     (case scan_lines (split_on newline text) [] [] of
        (workout_title, workout_date) \<Rightarrow>
          (if workout_date = [] then ''Unknown Date'' else workout_date)
          @ '' - '' @
          (if workout_title = [] then ''Workout'' else workout_title))"

section \<open>create_excel\<close>

text \<open>
  The DataFrame of line 232 holds the column titles and the rows of strings. A worksheet
  is modelled by what the claims observe: the values written to cells, in the order of
  writing, and the merged ranges. Fonts, fills, borders, the column widths of lines
  153-169 and the serialisation are not part of the model.
\<close>

record dataframe =
  columns :: "string list"
  df_values :: "string list list"

datatype 'f cell_value = StrValue string | IntValue int | FloatValue 'f

record 'f worksheet =
  cells :: "((nat \<times> nat) \<times> 'f cell_value) list"
  merged_cells :: "(nat \<times> nat \<times> nat \<times> nat) list"

text \<open>
  The characters openpyxl refuses in a string value: the control characters but tab,
  line feed and carriage return.
\<close>

definition illegal_chars :: string where
  "illegal_chars =
     [CHR 0x00, CHR 0x01, CHR 0x02, CHR 0x03, CHR 0x04, CHR 0x05, CHR 0x06, CHR 0x07,
      CHR 0x08, CHR 0x0B, CHR 0x0C, CHR 0x0E, CHR 0x0F, CHR 0x10, CHR 0x11, CHR 0x12,
      CHR 0x13, CHR 0x14, CHR 0x15, CHR 0x16, CHR 0x17, CHR 0x18, CHR 0x19, CHR 0x1A,
      CHR 0x1B, CHR 0x1C, CHR 0x1D, CHR 0x1E, CHR 0x1F]"

text \<open>
  openpyxl's check of a string value: the string is cut to 32767 characters, and
  IllegalCharacterError is raised when what remains has a refused character.
\<close>

definition check_string :: "string \<Rightarrow> error + string" where
  "check_string v =
     (let v' = (if int (length v) \<le> 32767 then v else take 32767 v)
      in if list_ex (\<lambda>c. c \<in> set illegal_chars) v' then Inl IllegalCharacterError
         else Inr v')"

text \<open>
  \<open>worksheet.cell(row, column).value = v\<close> (lines 105, 116 and 144): a string goes
  through the check above, a number is stored as it is.
\<close>

definition set_cell ::
  "nat \<Rightarrow> nat \<Rightarrow> 'f cell_value \<Rightarrow> 'f worksheet \<Rightarrow> error + 'f worksheet" where
  "set_cell r c v ws =
     (case v of
        StrValue s \<Rightarrow>
          (case check_string s of
             Inl e \<Rightarrow> Inl e
           | Inr s' \<Rightarrow> Inr (ws\<lparr>cells := cells ws @ [((r, c), StrValue s')]\<rparr>))
      | IntValue n \<Rightarrow> Inr (ws\<lparr>cells := cells ws @ [((r, c), IntValue n)]\<rparr>)
      | FloatValue x \<Rightarrow> Inr (ws\<lparr>cells := cells ws @ [((r, c), FloatValue x)]\<rparr>))"

text \<open>\<open>merge_cells(start_row, start_column, end_row, end_column)\<close>.\<close>

definition merge_cells :: "nat \<Rightarrow> nat \<Rightarrow> nat \<Rightarrow> nat \<Rightarrow> 'f worksheet \<Rightarrow> 'f worksheet" where
  "merge_cells r1 c1 r2 c2 ws = ws\<lparr>merged_cells := merged_cells ws @ [(r1, c1, r2, c2)]\<rparr>"

definition is_decimal :: "string \<Rightarrow> bool" where
  "is_decimal s = (s \<noteq> [] \<and> list_all (\<lambda>c. c \<in> set decimal_chars) s)"

definition decimal_value :: "string \<Rightarrow> int" where
  "decimal_value s = foldl (\<lambda>acc c. 10 * acc + (int (of_char c) - 48)) 0 s"

text \<open>
  \<open>int(s)\<close> on a string for which \<open>s.isdigit()\<close> holds, the only strings it is
  called on. It raises ValueError on the superscript digits, and on a string with more
  digits than the interpreter's limit \<open>max_digits\<close> for such conversions: 4300 unless
  configured, 0 for no limit.
\<close>

definition int_of_digits :: "int \<Rightarrow> string \<Rightarrow> error + int" where
  "int_of_digits max_digits s =
     (if is_decimal s \<and> (max_digits = 0 \<or> int (length s) \<le> max_digits)
      then Inr (decimal_value s) else Inl ValueError)"

text \<open>
  Lines 135-142. The cell values of this program are strings, so \<open>isinstance\<close> holds.
  \<open>float(s)\<close> is a parameter: \<open>None\<close> stands for its ValueError. An error other than
  ValueError and TypeError is not caught here.
\<close>

definition coerce_cell ::
  "int \<Rightarrow> (string \<Rightarrow> 'f option) \<Rightarrow> string \<Rightarrow> error + 'f cell_value" where
  "coerce_cell max_digits float_of cell_value =
     (if py_isdigit cell_value then
        (case int_of_digits max_digits cell_value of
           Inr n \<Rightarrow> Inr (IntValue n)
         | Inl ValueError \<Rightarrow> Inr (StrValue cell_value)
         | Inl e \<Rightarrow> Inl e)
      else
        (case float_of cell_value of
           Some x \<Rightarrow> Inr (FloatValue x)
         | None \<Rightarrow> Inr (StrValue cell_value)))"

text \<open>Lines 114-116: the column titles, from column 1.\<close>

fun write_headers ::
  "nat \<Rightarrow> nat \<Rightarrow> string list \<Rightarrow> 'f worksheet \<Rightarrow> error + 'f worksheet" where
  "write_headers start_row col_num [] ws = Inr ws"
| "write_headers start_row col_num (column_title # titles) ws =
     (case set_cell start_row col_num (StrValue column_title) ws of
        Inl e \<Rightarrow> Inl e
      | Inr ws' \<Rightarrow> write_headers start_row (col_num + 1) titles ws')"

text \<open>
  Lines 130-144: one row of data. \<open>df.columns[col_num - 1]\<close> may raise IndexError, and
  the assignment of line 144 is outside the \<open>try\<close>.
\<close>

fun write_row ::
  "int \<Rightarrow> (string \<Rightarrow> 'f option) \<Rightarrow> string list \<Rightarrow> nat \<Rightarrow> nat \<Rightarrow> string list
   \<Rightarrow> 'f worksheet \<Rightarrow> error + 'f worksheet" where
  "write_row max_digits float_of cols row_num col_num [] ws = Inr ws"
| "write_row max_digits float_of cols row_num col_num (cell_value # row_data) ws =
     (if col_num - 1 < length cols then
        (case (if starts_with ''Set'' (cols ! (col_num - 1))
               then coerce_cell max_digits float_of cell_value
               else Inr (StrValue cell_value)) of
           Inl e \<Rightarrow> Inl e
         | Inr v \<Rightarrow>
             (case set_cell row_num col_num v ws of
                Inl e \<Rightarrow> Inl e
              | Inr ws' \<Rightarrow>
                  write_row max_digits float_of cols row_num (col_num + 1) row_data ws'))
      else Inl IndexError)"

text \<open>Line 129: the rows of the DataFrame, from \<open>start_row\<close>.\<close>

fun write_rows ::
  "int \<Rightarrow> (string \<Rightarrow> 'f option) \<Rightarrow> string list \<Rightarrow> nat \<Rightarrow> string list list
   \<Rightarrow> 'f worksheet \<Rightarrow> error + 'f worksheet" where
  "write_rows max_digits float_of cols row_num [] ws = Inr ws"
| "write_rows max_digits float_of cols row_num (row_data # rows) ws =
     (case write_row max_digits float_of cols row_num 1 row_data ws of
        Inl e \<Rightarrow> Inl e
      | Inr ws' \<Rightarrow> write_rows max_digits float_of cols (row_num + 1) rows ws')"

text \<open>
  Lines 96-151: the loop over the documents. Every element is a triple, so the
  unpacking of line 98 succeeds.
\<close>

fun write_documents ::
  "int \<Rightarrow> (string \<Rightarrow> 'f option) \<Rightarrow> nat \<Rightarrow> (dataframe \<times> string \<times> string) list
   \<Rightarrow> 'f worksheet \<Rightarrow> error + 'f worksheet" where
  "write_documents max_digits float_of start_row [] ws = Inr ws"
| "write_documents max_digits float_of start_row
     ((df, sheet_name, date_workout_type) # dataframes) ws =
     (case set_cell start_row 1 (StrValue date_workout_type) ws of
        Inl e \<Rightarrow> Inl e
      | Inr ws1 \<Rightarrow>
          (let ws2 = merge_cells start_row 1 start_row (length (columns df) + 1) ws1
           in case write_headers (start_row + 1) 1 (columns df) ws2 of
                Inl e \<Rightarrow> Inl e
              | Inr ws3 \<Rightarrow>
                  (case write_rows max_digits float_of (columns df) (start_row + 2)
                          (df_values df) ws3 of
                     Inl e \<Rightarrow> Inl e
                   | Inr ws4 \<Rightarrow>
                       write_documents max_digits float_of
                         (start_row + 2 + length (df_values df) + 3) dataframes ws4)))"

definition create_excel ::
  "int \<Rightarrow> (string \<Rightarrow> 'f option) \<Rightarrow> (dataframe \<times> string \<times> string) list
   \<Rightarrow> error + 'f worksheet" where
  "create_excel max_digits float_of dataframes =
     write_documents max_digits float_of 1 dataframes \<lparr>cells = [], merged_cells = []\<rparr>"

section \<open>index\<close>

text \<open>\<open>str(n)\<close> for a natural number, as the f-strings of lines 232 and 235 use it.\<close>

fun str_of_nat :: "nat \<Rightarrow> string" where
  "str_of_nat n =
     (if n < 10 then [char_of (48 + n)]
      else str_of_nat (n div 10) @ [char_of (48 + n mod 10)])"

declare str_of_nat.simps [simp del]

definition df_columns :: "nat \<Rightarrow> string list" where
  "df_columns max_sets =
     [''Exercise''] @ map (\<lambda>j. ''Set '' @ str_of_nat (j + 1)) [0..<max_sets] @ [''Extra Info'']"

text \<open>
  \<open>pd.DataFrame(table_data, columns=...)\<close> raises ValueError when the width of the
  data differs from the number of columns. Rows of different widths, which pandas would
  pad, do not arise here and are reported as the same error.
\<close>

definition make_dataframe :: "string list list \<Rightarrow> string list \<Rightarrow> error + dataframe" where
  "make_dataframe table_data cols =
     (if list_all (\<lambda>row. length row = length cols) table_data
      then Inr \<lparr>columns = cols, df_values = table_data\<rparr>
      else Inl ValueError)"

datatype http_method = GET | POST

record 'c upload =
  filename :: string
  content :: 'c

text \<open>
  The outside world of the handler: saving an upload to disk and the text detection of
  the vision service, each of which may fail, the interpreter's limit on the digits of
  an \<open>int\<close> conversion, and \<open>float\<close>.
\<close>

record ('c, 'f) services =
  save_upload :: "string \<Rightarrow> 'c \<Rightarrow> error option"
  detect_text :: "'c \<Rightarrow> error + string"
  int_max_str_digits :: int
  float_of :: "string \<Rightarrow> 'f option"

text \<open>What the handler did, in order; console output is left out.\<close>

datatype step = Saved string | TextDetected string | Parsed string | Composed

datatype 'f response =
  Json nat "(string \<times> string) list"
| ServerError error
| SendFile "'f worksheet"

text \<open>Lines 214-235: the loop over the uploaded files.\<close>

fun process_files ::
  "('c, 'f) services \<Rightarrow> nat \<Rightarrow> 'c upload list \<Rightarrow> (dataframe \<times> string \<times> string) list
   \<Rightarrow> step list \<Rightarrow> (error + (dataframe \<times> string \<times> string) list) \<times> step list" where
  "process_files sv i [] dataframes steps = (Inr dataframes, steps)"
| "process_files sv i (file # files) dataframes steps =
     (case save_upload sv (filename file) (content file) of
        Some e \<Rightarrow> (Inl e, steps)
      | None \<Rightarrow>
          (case detect_text sv (content file) of
             Inl e \<Rightarrow> (Inl e, steps @ [Saved (filename file)])
           | Inr text \<Rightarrow>
               (let workout_title_and_date = extract_workout_title_and_date text;
                    steps' = steps @ [Saved (filename file), TextDetected (filename file),
                                      Parsed (filename file)]
                in case transcribe_text_to_table text of
                     Inl e \<Rightarrow> (Inl e, steps')
                   | Inr (table_data, max_sets) \<Rightarrow>
                       (case make_dataframe table_data (df_columns max_sets) of
                          Inl e \<Rightarrow> (Inl e, steps')
                        | Inr df \<Rightarrow>
                            process_files sv (i + 1) files
                              (dataframes @ [(df, ''Sheet'' @ str_of_nat (i + 1),
                                              workout_title_and_date)])
                              steps'))))"

text \<open>Lines 205-246.\<close>

definition index ::
  "('c, 'f) services \<Rightarrow> http_method \<Rightarrow> 'c upload list \<Rightarrow> 'f response \<times> step list" where
  "index sv method files =
     (case method of
        POST \<Rightarrow>
          (if files = [] then (Json 400 [(''error'', ''No files received'')], [])
           else
             (case process_files sv 0 files [] [] of
                (Inl e, steps) \<Rightarrow> (ServerError e, steps)
              | (Inr dataframes, steps) \<Rightarrow>
                  (case create_excel (int_max_str_digits sv) (float_of sv) dataframes of
                     Inl e \<Rightarrow> (ServerError e, steps @ [Composed])
                   | Inr ws \<Rightarrow> (SendFile ws, steps @ [Composed]))))
      | GET \<Rightarrow> (Json 200 [(''message'', ''Upload your files'')], []))"

section \<open>Notions used to state the properties\<close>

text \<open>
  The lines that give a row, read off the line itself: a slash, and a colon or a period
  (which the replacement turns into a colon).
\<close>

definition qualifying_line :: "string \<Rightarrow> bool" where
  "qualifying_line l = (CHR ''/'' \<in> set l \<and> (CHR '':'' \<in> set l \<or> CHR ''.'' \<in> set l))"

definition is_separator :: "char \<Rightarrow> bool" where
  "is_separator c = (c = CHR '':'' \<or> c = CHR ''.'')"

text \<open>The text of a line between its first and its second colon or period.\<close>

definition sets_text :: "string \<Rightarrow> string" where
  "sets_text l =
     takeWhile (\<lambda>c. \<not> is_separator c) (tl (dropWhile (\<lambda>c. \<not> is_separator c) l))"

text \<open>
  A set piece that is purely numeric or empty: optional whitespace, then digits only (or
  none), then optional whitespace.
\<close>

definition numeric_or_blank :: "string \<Rightarrow> bool" where
  "numeric_or_blank seg =
     list_all isspace_char (dropWhile isdigit_char (dropWhile isspace_char seg))"

text \<open>
  The number of such pieces among the pieces that the slashes of a text delimit, counted
  in one pass over the characters; \<open>seg\<close> is the piece read so far.
\<close>

fun count_pieces :: "string \<Rightarrow> string \<Rightarrow> nat" where
  "count_pieces seg [] = (if numeric_or_blank seg then 1 else 0)"
| "count_pieces seg (c # cs) =
     (if c = CHR ''/'' then (if numeric_or_blank seg then 1 else 0) + count_pieces [] cs
      else count_pieces (seg @ [c]) cs)"

definition set_piece_count :: "string \<Rightarrow> nat" where
  "set_piece_count l = count_pieces [] (sets_text l)"

text \<open>
  The text of \<open>parts[1]\<close> from which the note is taken: what follows the first
  \<open>(\<close>, up to the next parenthesis of either kind or the end.
\<close>

definition note_text :: "string \<Rightarrow> string" where
  "note_text p1 =
     (if CHR ''('' \<in> set p1
      then takeWhile (\<lambda>c. c \<noteq> CHR ''('' \<and> c \<noteq> CHR '')'')
             (tl (dropWhile (\<lambda>c. c \<noteq> CHR ''('') p1))
      else [])"

text \<open>The row appended for a processed line with parts \<open>p\<close>, padded to \<open>m\<close> sets.\<close>

definition row_of :: "nat \<Rightarrow> string \<times> string \<Rightarrow> string list" where
  "row_of m p =
     [strip (fst p)]
     @ (numeric_pieces (snd p) @ replicate (m - length (numeric_pieces (snd p))) [])
     @ [note_text (snd p)]"

text \<open>The number of set pieces of a line before padding.\<close>

definition piece_count :: "string \<Rightarrow> nat" where
  "piece_count line =
     (case line_parts line of None \<Rightarrow> 0 | Some (p0, p1) \<Rightarrow> length (numeric_pieces p1))"

text \<open>The text between the first and the second colon of a line.\<close>

definition second_part :: "string \<Rightarrow> string" where
  "second_part line' =
     takeWhile (\<lambda>c. c \<noteq> CHR '':'') (tl (dropWhile (\<lambda>c. c \<noteq> CHR '':'') line'))"

text \<open>The set columns of a row: all entries but the exercise and the note.\<close>

definition row_sets :: "string list \<Rightarrow> string list" where
  "row_sets row = butlast (tl row)"

text \<open>A document of three lines used to instantiate the theorems.\<close>

definition sample_text :: string where
  "sample_text =
     ''Bench: 10/12/15 (warmup)'' @ [newline] @ ''Squat: 8/8'' @ [newline] @ ''Row: 1/2/3''"

text \<open>
  A document whose largest row has a last piece that is not numeric, with a line that has
  no slash and a line that has no colon.
\<close>

definition sample_mixed :: string where
  "sample_mixed =
     ''Leg Day'' @ [newline] @ ''Bench: 10/12/15 (warmup)'' @ [newline] @ ''8/8 reps''
     @ [newline] @ ''Squat. 8/8''"

text \<open>A document with a title line and a line that has a slash but no colon.\<close>

definition sample_skipped :: string where
  "sample_skipped = ''Leg Day'' @ [newline] @ ''8/8 reps'' @ [newline] @ ''Squat: 8/8''"

text \<open>
  The reading of the second part as everything after the first colon, to compare with
  \<open>parts[1]\<close> of the source.
\<close>

definition after_first_colon :: "string \<Rightarrow> string" where
  "after_first_colon line' = tl (dropWhile (\<lambda>c. c \<noteq> CHR '':'') line')"

text \<open>
  The count of numeric-or-empty pieces under that reading: the pieces of everything
  after the first colon of the line after the replacement.
\<close>

definition first_colon_piece_count :: "string \<Rightarrow> nat" where
  "first_colon_piece_count l =
     count_pieces [] (after_first_colon (replace_char (CHR ''.'') (CHR '':'') l))"

text \<open>Single lines used to instantiate the theorems.\<close>

definition time_line :: string where
  "time_line = ''Plank: 1.30/2/3''"

definition bench_line :: string where
  "bench_line = ''Bench: 10/12/15 (warmup)''"

definition decimal_line :: string where
  "decimal_line = ''Bench: 12.5/15/20''"

definition open_paren_line :: string where
  "open_paren_line = ''Bench: 10/12 (warmup''"

definition period_note_line :: string where
  "period_note_line = ''Bench: 10/12 (a.b)''"

text \<open>A document with two lines that look like a date before the title line.\<close>

definition two_dates_text :: string where
  "two_dates_text = ''1 Jan'' @ [newline] @ ''2 Feb'' @ [newline] @ ''Leg Day''"

text \<open>The first and the last column of a merged range.\<close>

definition column_span :: "nat \<times> nat \<times> nat \<times> nat \<Rightarrow> nat \<times> nat" where
  "column_span rng = (fst (snd rng), snd (snd (snd rng)))"





text \<open>
  Services to instantiate the theorems: a \<open>float\<close> that reads \<open>1.5\<close> only, the
  default limit of 4300 digits, a text detection that returns the uploaded content, a
  save that succeeds.
\<close>

definition sample_float :: "string \<Rightarrow> (int \<times> int) option" where
  "sample_float s = (if s = ''1.5'' then Some (3, 2) else None)"




definition echo_services :: "(string, int \<times> int) services" where
  "echo_services = \<lparr>save_upload = (\<lambda>name c. None), detect_text = (\<lambda>c. Inr c),
                     int_max_str_digits = 4300, float_of = sample_float\<rparr>"

section \<open>Facts about splitting and padding\<close>

lemma pad_sets_eq: "pad_sets sets m = sets @ replicate (m - length sets) []"
proof (induction sets m rule: pad_sets.induct)
  case (1 sets m)
  show ?case
  proof (cases "length sets < m")
    case True
    then have "m - length sets = Suc (m - Suc (length sets))" by simp
    with True 1 show ?thesis
      by (subst pad_sets.simps) (simp add: replicate_append_same)
  next
    case False
    then show ?thesis by (subst pad_sets.simps) simp
  qed
qed

lemma split_on_not_Nil: "split_on sep s \<noteq> []"
  by (induction s) (auto split: list.splits)

lemma split_on_unfold:
  "split_on sep s =
     takeWhile (\<lambda>c. c \<noteq> sep) s #
       (case dropWhile (\<lambda>c. c \<noteq> sep) s of [] \<Rightarrow> [] | c # r \<Rightarrow> split_on sep r)"
proof (induction s)
  case Nil
  show ?case by simp
next
  case (Cons a s)
  then show ?case by (cases "split_on sep s") (auto simp: split_on_not_Nil)
qed

lemma split_on_no_sep: "sep \<notin> set s \<Longrightarrow> split_on sep s = [s]"
  by (induction s) auto

lemma split_on_second:
  assumes "sep \<in> set s"
  shows "\<exists>rest. split_on sep s =
           takeWhile (\<lambda>c. c \<noteq> sep) s
           # takeWhile (\<lambda>c. c \<noteq> sep) (tl (dropWhile (\<lambda>c. c \<noteq> sep) s)) # rest"
proof -
  from assms obtain r where d: "dropWhile (\<lambda>c. c \<noteq> sep) s = sep # r"
    by (metis (mono_tags, lifting) dropWhile_eq_Nil_conv hd_dropWhile list.collapse)
  have "split_on sep s = takeWhile (\<lambda>c. c \<noteq> sep) s # split_on sep r"
    by (subst split_on_unfold) (simp add: d)
  moreover have "\<exists>rest. split_on sep r = takeWhile (\<lambda>c. c \<noteq> sep) r # rest"
    by (subst split_on_unfold) simp
  ultimately show ?thesis by (auto simp: d)
qed

lemma split_on_append:
  "split_on sep (a @ sep # b) = split_on sep a @ split_on sep b"
  by (induction a) (auto split: list.splits simp: split_on_not_Nil)

lemma takeWhile_twice:
  "takeWhile P (takeWhile Q xs) = takeWhile (\<lambda>x. Q x \<and> P x) xs"
  by (induction xs) auto

lemma extra_info_of_eq: "extra_info_of p1 = Inr (note_text p1)"
proof (cases "CHR ''('' \<in> set p1")
  case True
  then obtain rest where s: "split_on (CHR ''('') p1 =
      takeWhile (\<lambda>c. c \<noteq> CHR ''('') p1
      # takeWhile (\<lambda>c. c \<noteq> CHR ''('') (tl (dropWhile (\<lambda>c. c \<noteq> CHR ''('') p1)) # rest"
    using split_on_second by blast
  show ?thesis
    unfolding extra_info_of_def note_text_def
    by (simp add: True s takeWhile_twice
          split_on_unfold [of "CHR '')''" "takeWhile (\<lambda>c. c \<noteq> CHR ''('') (tl (dropWhile (\<lambda>c. c \<noteq> CHR ''('') p1))"])
next
  case False
  then show ?thesis by (simp add: extra_info_of_def note_text_def)
qed

lemma line_parts_eq:
  "line_parts line =
     (if CHR ''/'' \<in> set (replace_char (CHR ''.'') (CHR '':'') line)
         \<and> CHR '':'' \<in> set (replace_char (CHR ''.'') (CHR '':'') line)
      then Some (takeWhile (\<lambda>c. c \<noteq> CHR '':'') (replace_char (CHR ''.'') (CHR '':'') line),
                 second_part (replace_char (CHR ''.'') (CHR '':'') line))
      else None)"
proof (cases "CHR '':'' \<in> set (replace_char (CHR ''.'') (CHR '':'') line)")
  case True
  then obtain rest where "split_on (CHR '':'') (replace_char (CHR ''.'') (CHR '':'') line) =
      takeWhile (\<lambda>c. c \<noteq> CHR '':'') (replace_char (CHR ''.'') (CHR '':'') line)
      # second_part (replace_char (CHR ''.'') (CHR '':'') line) # rest"
    unfolding second_part_def using split_on_second by blast
  with True show ?thesis by (simp add: line_parts_def Let_def)
next
  case False
  then show ?thesis by (simp add: line_parts_def Let_def split_on_no_sep)
qed

lemma count_sets_mono: "m \<le> count_sets lines m"
proof (induction lines arbitrary: m)
  case Nil
  show ?case by simp
next
  case (Cons l lines)
  show ?case
  proof (cases "line_parts l")
    case None
    then show ?thesis using Cons [of m] by simp
  next
    case (Some p)
    then show ?thesis
      using Cons [of "max m (length (numeric_pieces (snd p)))"]
      by (cases p) simp
  qed
qed

lemma count_sets_eq:
  "count_sets lines m = Max (insert m (piece_count ` {l \<in> set lines. line_parts l \<noteq> None}))"
proof (induction lines arbitrary: m)
  case Nil
  show ?case by simp
next
  case (Cons l lines)
  show ?case
  proof (cases "line_parts l")
    case None
    then have "{x \<in> set (l # lines). line_parts x \<noteq> None} = {x \<in> set lines. line_parts x \<noteq> None}"
      by auto
    with None Cons [of m] show ?thesis by simp
  next
    case (Some p)
    obtain p0 p1 where p: "p = (p0, p1)" by (cases p)
    let ?S = "piece_count ` {x \<in> set lines. line_parts x \<noteq> None}"
    have k: "piece_count l = length (numeric_pieces p1)"
      by (simp add: piece_count_def Some p)
    have "{x \<in> set (l # lines). line_parts x \<noteq> None} = insert l {x \<in> set lines. line_parts x \<noteq> None}"
      using Some by auto
    then have img: "piece_count ` {x \<in> set (l # lines). line_parts x \<noteq> None} = insert (piece_count l) ?S"
      by simp
    have fin: "finite ?S" by simp
    have "count_sets (l # lines) m = Max (insert (max m (piece_count l)) ?S)"
      using Cons [of "max m (piece_count l)"] by (simp add: Some p k)
    also have "\<dots> = Max (insert m (insert (piece_count l) ?S))"
    proof (cases "?S = {}")
      case True
      then show ?thesis by (simp only: True) simp
    next
      case False
      have "Max (insert (max m (piece_count l)) ?S) = max (max m (piece_count l)) (Max ?S)"
        using fin False by (rule Max_insert)
      moreover have "Max (insert (piece_count l) ?S) = max (piece_count l) (Max ?S)"
        using fin False by (rule Max_insert)
      moreover have "Max (insert m (insert (piece_count l) ?S))
                       = max m (Max (insert (piece_count l) ?S))"
        by (rule Max_insert) (use fin in simp_all)
      ultimately show ?thesis by (simp only: max.assoc)
    qed
    finally show ?thesis by (simp only: img)
  qed
qed

lemma build_rows_eq:
  "build_rows m lines data = Inr (data @ map (row_of m) (List.map_filter line_parts lines))"
proof (induction lines arbitrary: data)
  case Nil
  show ?case by (simp add: List.map_filter_simps)
next
  case (Cons l lines)
  show ?case
  proof (cases "line_parts l")
    case None
    then show ?thesis using Cons by (simp add: List.map_filter_simps)
  next
    case (Some p)
    then show ?thesis
      using Cons
      by (cases p) (simp add: List.map_filter_simps extra_info_of_eq pad_sets_eq row_of_def)
  qed
qed

lemma transcribe_lines_eq:
  "transcribe_lines lines =
     Inr (map (row_of (count_sets lines 0)) (List.map_filter line_parts lines),
          count_sets lines 0)"
  by (simp add: transcribe_lines_def Let_def build_rows_eq)

lemma count_sets_ge:
  "l \<in> set lines \<Longrightarrow> line_parts l = Some p \<Longrightarrow>
     length (numeric_pieces (snd p)) \<le> count_sets lines m"
proof (induction lines arbitrary: m)
  case Nil
  then show ?case by simp
next
  case (Cons a lines)
  show ?case
  proof (cases "l = a")
    case True
    have "max m (length (numeric_pieces (snd p))) \<le> count_sets lines (max m (length (numeric_pieces (snd p))))"
      by (rule count_sets_mono)
    then show ?thesis using Cons.prems True by (cases p) simp
  next
    case False
    then have "l \<in> set lines" using Cons.prems by simp
    then show ?thesis
      using Cons.IH [OF _ Cons.prems(2)] by (cases "line_parts a") (auto)
  qed
qed

lemma set_map_filter: "set (List.map_filter f xs) = {y. \<exists>x \<in> set xs. f x = Some y}"
  by (induction xs) (auto simp: List.map_filter_simps split: option.splits)

lemma map_filter_append:
  "List.map_filter f (xs @ ys) = List.map_filter f xs @ List.map_filter f ys"
  by (induction xs) (auto simp: List.map_filter_simps split: option.splits)

lemma length_row_of:
  "length (numeric_pieces (snd p)) \<le> m \<Longrightarrow> length (row_of m p) = m + 2"
  by (simp add: row_of_def)

lemma row_sets_row_of:
  "row_sets (row_of m p) =
     numeric_pieces (snd p) @ replicate (m - length (numeric_pieces (snd p))) []"
  by (simp add: row_of_def row_sets_def butlast_append)

lemma last_row_of: "last (row_of m p) = note_text (snd p)"
  by (simp add: row_of_def)

lemma row_of_line:
  assumes "lines = xs @ l # ys" and "line_parts l = Some p"
  shows "length (List.map_filter line_parts xs) < length (List.map_filter line_parts lines)"
    and "map (row_of m) (List.map_filter line_parts lines) ! length (List.map_filter line_parts xs)
           = row_of m p"
  using assms by (simp_all add: map_filter_append List.map_filter_simps nth_append)

lemma line_parts_excluded:
  assumes "CHR ''/'' \<notin> set l
           \<or> length (split_on (CHR '':'') (replace_char (CHR ''.'') (CHR '':'') l)) < 2"
  shows "line_parts l = None"
proof -
  have "CHR ''/'' \<notin> set l \<Longrightarrow> CHR ''/'' \<notin> set (replace_char (CHR ''.'') (CHR '':'') l)"
    by (auto simp: replace_char_def)
  with assms show ?thesis
    by (auto simp: line_parts_def Let_def split: list.splits)
qed

lemma transcribe_lines_skip:
  assumes "line_parts l = None"
  shows "transcribe_lines (xs @ l # ys) = transcribe_lines (xs @ ys)"
proof -
  have "{x \<in> set (xs @ l # ys). line_parts x \<noteq> None} = {x \<in> set (xs @ ys). line_parts x \<noteq> None}"
    using assms by auto
  then have "count_sets (xs @ l # ys) 0 = count_sets (xs @ ys) 0"
    by (simp only: count_sets_eq)
  then show ?thesis
    using assms by (simp add: transcribe_lines_eq map_filter_append List.map_filter_simps)
qed

lemma sample_text_table:
  "transcribe_text_to_table sample_text =
     Inr ([[''Bench'', ''10'', ''12'', [], ''warmup''],
           [''Squat'', ''8'', ''8'', [], []],
           [''Row'', ''1'', ''2'', ''3'', []]], 3)"
  by code_simp

lemma set_take_tl_drop: "set (takeWhile P (tl (dropWhile Q q))) \<subseteq> set q"
proof
  fix x
  assume "x \<in> set (takeWhile P (tl (dropWhile Q q)))"
  then have "x \<in> set (tl (dropWhile Q q))" by (auto dest: set_takeWhileD)
  then have "x \<in> set (dropWhile Q q)" by (cases "dropWhile Q q") auto
  then show "x \<in> set q" by (rule set_dropWhileD)
qed

lemma set_note_text: "set (note_text q) \<subseteq> set q"
proof (cases "CHR ''('' \<in> set q")
  case True
  then show ?thesis by (simp only: note_text_def if_True set_take_tl_drop)
next
  case False
  then show ?thesis by (simp add: note_text_def)
qed

lemma set_second_part: "set (second_part n) \<subseteq> set n"
  unfolding second_part_def by (rule set_take_tl_drop)

lemma second_part_no_colon: "CHR '':'' \<notin> set (second_part n)"
  unfolding second_part_def by (auto dest: set_takeWhileD)

lemma no_period_after_replace: "CHR ''.'' \<notin> set (replace_char (CHR ''.'') (CHR '':'') l)"
  by (auto simp: replace_char_def)

lemma takeWhile_stop:
  "takeWhile (\<lambda>c. c \<noteq> x) (r @ x # rest) = takeWhile (\<lambda>c. c \<noteq> x) r"
  by (induction r) auto

lemma second_part_ignores_rest:
  assumes "CHR '':'' \<in> set n"
  shows "second_part (n @ CHR '':'' # rest) = second_part n"
  using assms by (induction n) (auto simp: second_part_def takeWhile_stop)

lemma transcribe_text_eq:
  "transcribe_text_to_table text =
     Inr (map (row_of (count_sets (split_on newline text) 0))
            (List.map_filter line_parts (split_on newline text)),
          count_sets (split_on newline text) 0)"
  by (simp add: transcribe_text_to_table_def transcribe_lines_eq)

lemma row_in_rows:
  "l \<in> set lines \<Longrightarrow> line_parts l = Some p \<Longrightarrow>
     row_of m p \<in> set (map (row_of m) (List.map_filter line_parts lines))"
  by (auto simp: set_map_filter)

lemma bench_parts:
  "line_parts ''Bench: 10/12/15 (warmup)'' = Some (''Bench'', '' 10/12/15 (warmup)'')"
  by code_simp

lemma bench_pieces: "numeric_pieces '' 10/12/15 (warmup)'' = [''10'', ''12'']"
  by code_simp

lemma bench_note: "note_text '' 10/12/15 (warmup)'' = ''warmup''"
  by code_simp

lemma bench_exercise: "strip ''Bench'' = ''Bench''"
  by code_simp

lemma bench_row:
  "row_of m (''Bench'', '' 10/12/15 (warmup)'') =
     [''Bench'', ''10'', ''12''] @ replicate (m - 2) [] @ [''warmup'']"
  unfolding row_of_def fst_conv snd_conv bench_pieces bench_note bench_exercise by simp

lemma squat_parts: "line_parts ''Squat: 8/8'' = Some (''Squat'', '' 8/8'')"
  by code_simp

lemma squat_pieces: "numeric_pieces '' 8/8'' = [''8'', ''8'']"
  by code_simp

lemma squat_note: "note_text '' 8/8'' = []"
  by code_simp

lemma squat_exercise: "strip ''Squat'' = ''Squat''"
  by code_simp

lemma squat_row:
  "row_of m (''Squat'', '' 8/8'') = [''Squat'', ''8'', ''8''] @ replicate (m - 2) [] @ [[]]"
  unfolding row_of_def fst_conv snd_conv squat_pieces squat_note squat_exercise by simp

lemma sample_text_lines:
  "split_on newline sample_text = [] @ ''Bench: 10/12/15 (warmup)'' # [''Squat: 8/8'', ''Row: 1/2/3'']"
  by code_simp

section \<open>Facts about the pieces of a line\<close>

lemma digit_not_space: "isdigit_char c \<Longrightarrow> \<not> isspace_char c"
  by (auto simp: isdigit_char_def isspace_char_def digit_chars_def decimal_chars_def
        whitespace_chars_def)

lemma strip_decomp:
  "\<exists>w. dropWhile isspace_char seg = strip seg @ w \<and> list_all isspace_char w"
proof -
  let ?core = "dropWhile isspace_char seg"
  have "rev ?core = takeWhile isspace_char (rev ?core) @ dropWhile isspace_char (rev ?core)"
    by simp
  then have "?core = rev (dropWhile isspace_char (rev ?core)) @ rev (takeWhile isspace_char (rev ?core))"
    by (metis rev_append rev_rev_ident)
  moreover have "list_all isspace_char (rev (takeWhile isspace_char (rev ?core)))"
    by (auto simp: list_all_iff dest: set_takeWhileD)
  ultimately show ?thesis unfolding strip_def by blast
qed

lemma strip_last: "strip seg \<noteq> [] \<Longrightarrow> \<not> isspace_char (last (strip seg))"
proof -
  assume ne: "strip seg \<noteq> []"
  let ?d = "dropWhile isspace_char (rev (dropWhile isspace_char seg))"
  from ne have "?d \<noteq> []" by (simp add: strip_def)
  then have "\<not> isspace_char (hd ?d)" by (rule hd_dropWhile)
  moreover have "last (strip seg) = hd ?d"
    using \<open>?d \<noteq> []\<close> by (simp add: strip_def last_rev)
  ultimately show ?thesis by simp
qed

lemma scan_digits:
  assumes w: "list_all isspace_char w"
      and t: "t = [] \<or> \<not> isspace_char (last t)"
  shows "list_all isspace_char (dropWhile isdigit_char (t @ w)) \<longleftrightarrow> list_all isdigit_char t"
proof
  assume d: "list_all isdigit_char t"
  then have "dropWhile isdigit_char (t @ w) = dropWhile isdigit_char w"
    by (simp add: list_all_iff dropWhile_append2)
  moreover have "set (dropWhile isdigit_char w) \<subseteq> set w"
    by (auto dest: set_dropWhileD)
  ultimately show "list_all isspace_char (dropWhile isdigit_char (t @ w))"
    using w by (auto simp: list_all_iff)
next
  assume a: "list_all isspace_char (dropWhile isdigit_char (t @ w))"
  show "list_all isdigit_char t"
  proof (rule ccontr)
    assume "\<not> list_all isdigit_char t"
    then obtain x where x: "x \<in> set t" "\<not> isdigit_char x"
      by (auto simp: list_all_iff)
    then have e: "dropWhile isdigit_char (t @ w) = dropWhile isdigit_char t @ w"
      by (simp add: dropWhile_append1)
    have ne: "dropWhile isdigit_char t \<noteq> []"
      using x by (auto simp: dropWhile_eq_Nil_conv)
    have "t = takeWhile isdigit_char t @ dropWhile isdigit_char t" by simp
    then have "last t = last (dropWhile isdigit_char t)"
      using ne by (metis last_appendR)
    moreover have "isspace_char (last (dropWhile isdigit_char t))"
      using a ne unfolding e by (simp add: list_all_iff)
    moreover have "t \<noteq> []" using x by auto
    ultimately show False using t by simp
  qed
qed

lemma numeric_or_blank_iff:
  "numeric_or_blank seg \<longleftrightarrow> py_isdigit (strip seg) \<or> strip seg = []"
proof -
  obtain w where c: "dropWhile isspace_char seg = strip seg @ w" and w: "list_all isspace_char w"
    using strip_decomp by blast
  have t: "strip seg = [] \<or> \<not> isspace_char (last (strip seg))"
    using strip_last by blast
  have "numeric_or_blank seg \<longleftrightarrow> list_all isdigit_char (strip seg)"
    unfolding numeric_or_blank_def c by (rule scan_digits [OF w t])
  then show ?thesis by (auto simp: py_isdigit_def)
qed

lemma count_pieces_split:
  "count_pieces seg s =
     length (filter numeric_or_blank
       ((seg @ hd (split_on (CHR ''/'') s)) # tl (split_on (CHR ''/'') s)))"
proof (induction s arbitrary: seg)
  case Nil
  show ?case by simp
next
  case (Cons c s)
  obtain p ps where sp: "split_on (CHR ''/'') s = p # ps"
    using split_on_not_Nil by (cases "split_on (CHR ''/'') s") auto
  show ?case
    using Cons [of "[]"] Cons [of "seg @ [c]"] by (simp add: sp)
qed

lemma count_pieces_eq:
  "count_pieces [] s = length (filter numeric_or_blank (split_on (CHR ''/'') s))"
proof -
  obtain p ps where sp: "split_on (CHR ''/'') s = p # ps"
    using split_on_not_Nil by (cases "split_on (CHR ''/'') s") auto
  show ?thesis by (simp add: count_pieces_split sp)
qed

lemma strip_space_Cons: "isspace_char c \<Longrightarrow> strip (c # p) = strip p"
  by (simp add: strip_def)

lemma dropWhile_all: "list_all P xs \<Longrightarrow> dropWhile P xs = []"
  by (induction xs) auto

lemma strip_space_snoc: "isspace_char c \<Longrightarrow> strip (p @ [c]) = strip p"
proof (cases "list_all isspace_char p")
  case True
  assume "isspace_char c"
  with True have "list_all isspace_char (p @ [c])" by simp
  then have a: "dropWhile isspace_char (p @ [c]) = []" by (rule dropWhile_all)
  have b: "dropWhile isspace_char p = []" using True by (rule dropWhile_all)
  show ?thesis unfolding strip_def a b by simp
next
  case False
  assume c: "isspace_char c"
  from False obtain x where "x \<in> set p" "\<not> isspace_char x"
    by (auto simp: list_all_iff)
  then have "dropWhile isspace_char (p @ [c]) = dropWhile isspace_char p @ [c]"
    by (simp add: dropWhile_append1)
  with c show ?thesis by (simp add: strip_def)
qed

lemma split_on_snoc:
  "c \<noteq> sep \<Longrightarrow>
     split_on sep (s @ [c]) = butlast (split_on sep s) @ [last (split_on sep s) @ [c]]"
proof (induction s)
  case Nil
  then show ?case by simp
next
  case (Cons a s)
  obtain p ps where sp: "split_on sep s = p # ps"
    using split_on_not_Nil by (cases "split_on sep s") auto
  show ?case
    using Cons by (cases ps) (auto simp: sp)
qed

lemma strip_split_snoc:
  assumes "isspace_char c" and "c \<noteq> sep"
  shows "map strip (split_on sep (s @ [c])) = map strip (split_on sep s)"
proof -
  let ?xs = "split_on sep s"
  have ne: "?xs \<noteq> []" by (rule split_on_not_Nil)
  have "map strip (split_on sep (s @ [c])) = map strip (butlast ?xs) @ [strip (last ?xs @ [c])]"
    using assms(2) by (simp add: split_on_snoc)
  also have "\<dots> = map strip (butlast ?xs) @ [strip (last ?xs)]"
    using assms(1) by (simp add: strip_space_snoc)
  also have "\<dots> = map strip (butlast ?xs @ [last ?xs])" by simp
  also have "\<dots> = map strip ?xs" using ne by simp
  finally show ?thesis .
qed

lemma strip_split_ltrim:
  assumes "\<not> isspace_char sep"
  shows "map strip (split_on sep (dropWhile isspace_char s)) = map strip (split_on sep s)"
proof (induction s)
  case Nil
  show ?case by simp
next
  case (Cons a s)
  show ?case
  proof (cases "isspace_char a")
    case True
    obtain p ps where sp: "split_on sep s = p # ps"
      using split_on_not_Nil by (cases "split_on sep s") auto
    have "a \<noteq> sep" using True assms by auto
    then show ?thesis
      using True Cons by (simp add: sp strip_space_Cons)
  next
    case False
    then show ?thesis by simp
  qed
qed

lemma strip_split_rtrim:
  assumes "\<not> isspace_char sep"
  shows "map strip (split_on sep (rev (dropWhile isspace_char u))) = map strip (split_on sep (rev u))"
proof (induction u)
  case Nil
  show ?case by simp
next
  case (Cons a u)
  show ?case
  proof (cases "isspace_char a")
    case True
    then have "a \<noteq> sep" using assms by auto
    with True Cons show ?thesis by (simp add: strip_split_snoc)
  next
    case False
    then show ?thesis by simp
  qed
qed

lemma strip_split_strip:
  assumes "\<not> isspace_char sep"
  shows "map strip (split_on sep (strip s)) = map strip (split_on sep s)"
proof -
  have e: "strip s = rev (dropWhile isspace_char (rev (dropWhile isspace_char s)))"
    by (simp add: strip_def)
  have "map strip (split_on sep (strip s))
          = map strip (split_on sep (rev (rev (dropWhile isspace_char s))))"
    by (subst e) (rule strip_split_rtrim [OF assms])
  also have "\<dots> = map strip (split_on sep s)"
    using strip_split_ltrim [OF assms] by simp
  finally show ?thesis .
qed

lemma slash_not_space: "\<not> isspace_char (CHR ''/'')"
  by (simp add: isspace_char_def whitespace_chars_def)

lemma length_numeric_pieces: "length (numeric_pieces p1) = count_pieces [] p1"
proof -
  let ?ok = "\<lambda>t. py_isdigit t \<or> t = []"
  have "length (numeric_pieces p1)
          = length (filter (?ok \<circ> strip) (split_on (CHR ''/'') (strip p1)))"
    by (simp add: numeric_pieces_def comp_def)
  also have "\<dots> = length (filter ?ok (map strip (split_on (CHR ''/'') (strip p1))))"
    by (simp add: filter_map)
  also have "\<dots> = length (filter ?ok (map strip (split_on (CHR ''/'') p1)))"
    by (simp only: strip_split_strip [OF slash_not_space])
  also have "\<dots> = length (filter (?ok \<circ> strip) (split_on (CHR ''/'') p1))"
    by (simp add: filter_map)
  also have "\<dots> = length (filter numeric_or_blank (split_on (CHR ''/'') p1))"
  proof -
    have "(?ok \<circ> strip) = numeric_or_blank"
      by (auto simp: fun_eq_iff numeric_or_blank_iff)
    then show ?thesis by (simp only:)
  qed
  finally show ?thesis by (simp add: count_pieces_eq)
qed

lemma second_part_replace:
  "second_part (replace_char (CHR ''.'') (CHR '':'') l) = sets_text l"
proof -
  let ?f = "\<lambda>c. if c = CHR ''.'' then CHR '':'' else c"
  have p: "((\<lambda>c. c \<noteq> CHR '':'') \<circ> ?f) = (\<lambda>c. \<not> is_separator c)"
    by (auto simp: is_separator_def fun_eq_iff)
  let ?t = "takeWhile (\<lambda>c. \<not> is_separator c) (tl (dropWhile (\<lambda>c. \<not> is_separator c) l))"
  have "second_part (map ?f l) = map ?f ?t"
    by (simp add: second_part_def dropWhile_map takeWhile_map p map_tl [symmetric])
  moreover have "map ?f ?t = ?t"
    by (rule map_idI) (auto dest!: set_takeWhileD simp: is_separator_def)
  ultimately show ?thesis by (simp add: replace_char_def sets_text_def)
qed

lemma slash_after_replace:
  "CHR ''/'' \<in> set (replace_char (CHR ''.'') (CHR '':'') l) \<longleftrightarrow> CHR ''/'' \<in> set l"
  by (induction l) (auto simp: replace_char_def)

lemma colon_after_replace:
  "CHR '':'' \<in> set (replace_char (CHR ''.'') (CHR '':'') l)
     \<longleftrightarrow> CHR '':'' \<in> set l \<or> CHR ''.'' \<in> set l"
  by (induction l) (auto simp: replace_char_def)

lemma line_parts_Some:
  assumes "qualifying_line l"
  shows "line_parts l =
           Some (takeWhile (\<lambda>c. c \<noteq> CHR '':'') (replace_char (CHR ''.'') (CHR '':'') l),
                 sets_text l)"
  using assms
  by (simp add: line_parts_eq qualifying_line_def slash_after_replace colon_after_replace
        second_part_replace)

lemma line_parts_None:
  assumes "\<not> qualifying_line l"
  shows "line_parts l = None"
  using assms
  by (simp add: line_parts_eq qualifying_line_def slash_after_replace colon_after_replace)

lemma line_parts_qualifying: "(line_parts l \<noteq> None) = qualifying_line l"
proof (cases "qualifying_line l")
  case True
  from line_parts_Some [OF True] have "line_parts l \<noteq> None" by simp
  with True show ?thesis by simp
next
  case False
  from line_parts_None [OF False] have "line_parts l = None" .
  with False show ?thesis by simp
qed

lemma piece_count_spec: "qualifying_line l \<Longrightarrow> piece_count l = set_piece_count l"
  by (simp add: piece_count_def line_parts_Some length_numeric_pieces set_piece_count_def)

lemma length_map_filter: "length (List.map_filter f xs) = length (filter (\<lambda>x. f x \<noteq> None) xs)"
  by (simp add: List.map_filter_def)

lemma sample_mixed_table:
  "transcribe_text_to_table sample_mixed =
     Inr ([[''Bench'', ''10'', ''12'', ''warmup''], [''Squat'', ''8'', ''8'', []]], 2)"
  by code_simp

lemma sample_mixed_counts:
  "map set_piece_count (filter qualifying_line (split_on newline sample_mixed)) = [2, 2]"
  by code_simp

section \<open>The table builder\<close>

text \<open>
  C1, amended. For every text, \<open>transcribe_text_to_table\<close> returns a table (it raises
  nothing), the set columns of every row are exactly \<open>max_sets\<close> many (a row has
  \<open>max_sets + 2\<close> entries with the exercise and the note), there is one row for each
  line with a slash and a colon or period, and \<open>max_sets\<close> is the largest number, over
  those lines, of numeric-or-empty pieces among the pieces that the slashes delimit in
  the text between the first and the second colon or period; the text after a second one
  is not counted, and \<open>max_sets\<close> is 0 when there is no such line. The lines and the
  count are read off the text itself, not through the functions of the code.
\<close>

theorem table_is_rectangular:
  "\<exists>rows max_sets.
     transcribe_text_to_table text = Inr (rows, max_sets)
     \<and> (\<forall>row \<in> set rows. length (row_sets row) = max_sets \<and> length row = max_sets + 2)
     \<and> length rows = length (filter qualifying_line (split_on newline text))
     \<and> max_sets = Max (insert 0 (set_piece_count `
                        {l \<in> set (split_on newline text). qualifying_line l}))"
proof -
  let ?lines = "split_on newline text"
  let ?m = "count_sets ?lines 0"
  let ?rows = "map (row_of ?m) (List.map_filter line_parts ?lines)"
  have t: "transcribe_text_to_table text = Inr (?rows, ?m)"
    by (simp add: transcribe_text_to_table_def transcribe_lines_eq)
  have r: "length (row_sets row) = ?m \<and> length row = ?m + 2" if "row \<in> set ?rows" for row
  proof -
    from that obtain l p where l: "l \<in> set ?lines" "line_parts l = Some p"
      and r: "row = row_of ?m p"
      by (auto simp: set_map_filter)
    have le: "length (numeric_pieces (snd p)) \<le> ?m"
      using l by (rule count_sets_ge)
    then show ?thesis
      by (simp add: r row_sets_row_of length_row_of)
  qed
  have n: "length ?rows = length (filter qualifying_line ?lines)"
    by (simp only: length_map length_map_filter line_parts_qualifying)
  have "{l \<in> set ?lines. line_parts l \<noteq> None} = {l \<in> set ?lines. qualifying_line l}"
    by (simp only: line_parts_qualifying)
  moreover have "piece_count ` {l \<in> set ?lines. qualifying_line l}
          = set_piece_count ` {l \<in> set ?lines. qualifying_line l}"
    by (rule image_cong) (simp_all add: piece_count_spec)
  ultimately have m: "?m = Max (insert 0 (set_piece_count ` {l \<in> set ?lines. qualifying_line l}))"
    by (simp only: count_sets_eq)
  from t r n m show ?thesis by blast
qed

theorem table_is_rectangular_witness:
  "transcribe_text_to_table sample_mixed =
     Inr ([[''Bench'', ''10'', ''12'', ''warmup''], [''Squat'', ''8'', ''8'', []]], 2)
   \<and> length (filter qualifying_line (split_on newline sample_mixed)) = 2
   \<and> Max (insert 0 (set_piece_count `
           {l \<in> set (split_on newline sample_mixed). qualifying_line l})) = 2
   \<and> map set_piece_count (filter qualifying_line (split_on newline sample_mixed)) = [2, 2]"
proof -
  from table_is_rectangular [of sample_mixed] obtain rows m
    where t: "transcribe_text_to_table sample_mixed = Inr (rows, m)"
      and n: "length rows = length (filter qualifying_line (split_on newline sample_mixed))"
      and m: "m = Max (insert 0 (set_piece_count `
                 {l \<in> set (split_on newline sample_mixed). qualifying_line l}))"
    by blast
  from t have "rows = [[''Bench'', ''10'', ''12'', ''warmup''], [''Squat'', ''8'', ''8'', []]]"
    and "m = 2"
    by (simp_all add: sample_mixed_table)
  with n m show ?thesis
    by (simp add: sample_mixed_table sample_mixed_counts)
qed

text \<open>
  The claim as stated, with the pieces of everything after the first colon, fails on a
  line with a period in its first value: \<open>max_sets\<close> is 1, and two of those pieces
  are numeric.
\<close>

theorem table_is_rectangular_counterexample:
  "transcribe_text_to_table time_line = Inr ([[''Plank'', ''1'', []]], 1)
   \<and> split_on newline time_line = [time_line]
   \<and> qualifying_line time_line
   \<and> first_colon_piece_count time_line = 2
   \<and> set_piece_count time_line = 1"
  by code_simp

text \<open>
  C7. A line without a slash, and a line whose split on the colon (after the
  replacement of periods) has fewer than two parts, adds no row: the table of the text is
  the table of the same lines without that line, and it is a table, not an error. The
  rows are as many as the remaining lines that pass both tests.
\<close>

theorem excluded_lines_add_no_row:
  assumes "split_on newline text = xs @ l # ys"
      and "CHR ''/'' \<notin> set l
           \<or> length (split_on (CHR '':'') (replace_char (CHR ''.'') (CHR '':'') l)) < 2"
  shows "transcribe_text_to_table text = transcribe_lines (xs @ ys)
         \<and> (\<exists>rows max_sets. transcribe_text_to_table text = Inr (rows, max_sets)
               \<and> length rows = length (filter (\<lambda>x. line_parts x \<noteq> None) (xs @ ys)))"
proof -
  have n: "line_parts l = None" using assms(2) by (rule line_parts_excluded)
  have "transcribe_text_to_table text = transcribe_lines (xs @ ys)"
    by (simp add: transcribe_text_to_table_def assms(1) transcribe_lines_skip [OF n])
  then show ?thesis
    by (simp add: transcribe_lines_eq List.map_filter_def)
qed

theorem excluded_lines_add_no_row_witness:
  "split_on newline sample_skipped = [''Leg Day''] @ ''8/8 reps'' # [''Squat: 8/8'']
   \<and> CHR ''/'' \<in> set ''8/8 reps''
   \<and> length (split_on (CHR '':'') (replace_char (CHR ''.'') (CHR '':'') ''8/8 reps'')) < 2
   \<and> transcribe_text_to_table sample_skipped = transcribe_lines ([''Leg Day''] @ [''Squat: 8/8''])
   \<and> transcribe_text_to_table sample_skipped = Inr ([[''Squat'', ''8'', ''8'', []]], 2)"
proof -
  have h1: "split_on newline sample_skipped = [''Leg Day''] @ ''8/8 reps'' # [''Squat: 8/8'']"
    by code_simp
  have h2: "length (split_on (CHR '':'') (replace_char (CHR ''.'') (CHR '':'') ''8/8 reps'')) < 2"
    by code_simp
  have h3: "transcribe_lines ([''Leg Day''] @ [''Squat: 8/8'']) = Inr ([[''Squat'', ''8'', ''8'', []]], 2)"
    by code_simp
  from excluded_lines_add_no_row [OF h1 disjI2 [OF h2]]
  have "transcribe_text_to_table sample_skipped = transcribe_lines ([''Leg Day''] @ [''Squat: 8/8''])"
    by blast
  with h1 h2 h3 show ?thesis by simp
qed

text \<open>
  C2, amended. For every text with the line \<open>Bench: 10/12/15 (warmup)\<close> the row of
  that line has the exercise \<open>Bench\<close>, the sets \<open>10\<close> and \<open>12\<close> followed by empty
  markers up to \<open>max_sets\<close>, and the note \<open>warmup\<close>: the piece \<open>15 (warmup)\<close> is
  not numeric and is dropped. There is no padding exactly when no line has more than two
  pieces. A line \<open>Squat: 8/8\<close> of the same text has the sets \<open>8\<close>, \<open>8\<close> and one
  empty marker when \<open>max_sets\<close> is 3.
\<close>

theorem bench_row_loses_last_set:
  assumes "''Bench: 10/12/15 (warmup)'' \<in> set (split_on newline text)"
  shows "\<exists>rows max_sets.
           transcribe_text_to_table text = Inr (rows, max_sets)
           \<and> 2 \<le> max_sets
           \<and> [''Bench'', ''10'', ''12''] @ replicate (max_sets - 2) [] @ [''warmup''] \<in> set rows
           \<and> ((\<forall>l \<in> set (split_on newline text). piece_count l \<le> 2)
                \<longrightarrow> max_sets = 2 \<and> [''Bench'', ''10'', ''12'', ''warmup''] \<in> set rows)
           \<and> (''Squat: 8/8'' \<in> set (split_on newline text) \<and> max_sets = 3
                \<longrightarrow> [''Squat'', ''8'', ''8'', [], []] \<in> set rows)"
proof -
  let ?lines = "split_on newline text"
  let ?m = "count_sets ?lines 0"
  let ?rows = "map (row_of ?m) (List.map_filter line_parts ?lines)"
  have b: "[''Bench'', ''10'', ''12''] @ replicate (?m - 2) [] @ [''warmup''] \<in> set ?rows"
    using row_in_rows [OF assms bench_parts, of ?m] by (simp only: bench_row)
  have "length (numeric_pieces (snd (''Bench'', '' 10/12/15 (warmup)''))) \<le> ?m"
    using assms bench_parts by (rule count_sets_ge)
  then have ge: "2 \<le> ?m" unfolding snd_conv bench_pieces by simp
  have le: "?m \<le> 2" if "\<forall>l \<in> set ?lines. piece_count l \<le> 2"
  proof -
    have "Max (insert 0 (piece_count ` {l \<in> set ?lines. line_parts l \<noteq> None})) \<le> 2"
    proof (rule Max.boundedI)
      show "finite (insert 0 (piece_count ` {l \<in> set ?lines. line_parts l \<noteq> None}))" by simp
      show "insert 0 (piece_count ` {l \<in> set ?lines. line_parts l \<noteq> None}) \<noteq> {}" by simp
      fix a assume "a \<in> insert 0 (piece_count ` {l \<in> set ?lines. line_parts l \<noteq> None})"
      then show "a \<le> 2" using that by auto
    qed
    then show ?thesis by (simp only: count_sets_eq)
  qed
  have s: "[''Squat'', ''8'', ''8'', [], []] \<in> set ?rows"
    if "''Squat: 8/8'' \<in> set ?lines" and "?m = 3"
  proof -
    have "row_of ?m (''Squat'', '' 8/8'') \<in> set ?rows"
      using that(1) squat_parts by (rule row_in_rows)
    moreover have "replicate (3 - 2) ([]::string) = [[]]" by (simp add: numeral_3_eq_3)
    ultimately show ?thesis unfolding squat_row that(2) by simp
  qed
  have two: "?m = 2 \<and> [''Bench'', ''10'', ''12'', ''warmup''] \<in> set ?rows"
    if "\<forall>l \<in> set ?lines. piece_count l \<le> 2"
  proof -
    have m: "?m = 2" using le [OF that] ge by simp
    with b show ?thesis by simp
  qed
  show ?thesis
    using transcribe_text_eq [of "text"] b ge two s by blast
qed

theorem bench_row_loses_last_set_witness:
  "''Bench: 10/12/15 (warmup)'' \<in> set (split_on newline sample_text)
   \<and> ''Squat: 8/8'' \<in> set (split_on newline sample_text)
   \<and> (\<exists>rows. transcribe_text_to_table sample_text = Inr (rows, 3)
         \<and> [''Bench'', ''10'', ''12'', [], ''warmup''] \<in> set rows
         \<and> [''Squat'', ''8'', ''8'', [], []] \<in> set rows)
   \<and> ''Bench: 10/12/15 (warmup)'' \<in> set (split_on newline bench_line)
   \<and> list_all (\<lambda>l. piece_count l \<le> 2) (split_on newline bench_line)
   \<and> (\<exists>rows. transcribe_text_to_table bench_line = Inr (rows, 2)
         \<and> [''Bench'', ''10'', ''12'', ''warmup''] \<in> set rows)"
proof -
  have h1: "''Bench: 10/12/15 (warmup)'' \<in> set (split_on newline sample_text)"
    by code_simp
  have h2: "''Squat: 8/8'' \<in> set (split_on newline sample_text)"
    by code_simp
  have h3: "''Bench: 10/12/15 (warmup)'' \<in> set (split_on newline bench_line)"
    by code_simp
  have h4: "\<forall>l \<in> set (split_on newline bench_line). piece_count l \<le> 2"
    by code_simp
  then have h4': "list_all (\<lambda>l. piece_count l \<le> 2) (split_on newline bench_line)"
    by (simp add: list_all_iff)
  from bench_row_loses_last_set [OF h1] obtain rows m
    where t: "transcribe_text_to_table sample_text = Inr (rows, m)"
      and b: "[''Bench'', ''10'', ''12''] @ replicate (m - 2) [] @ [''warmup''] \<in> set rows"
      and s: "''Squat: 8/8'' \<in> set (split_on newline sample_text) \<and> m = 3
                \<longrightarrow> [''Squat'', ''8'', ''8'', [], []] \<in> set rows"
    by blast
  from t have m: "m = 3" by (simp add: sample_text_table)
  have "replicate (3 - 2) ([]::string) = [[]]" by (simp add: numeral_3_eq_3)
  with b m have b': "[''Bench'', ''10'', ''12'', [], ''warmup''] \<in> set rows" by simp
  from s h2 m have s': "[''Squat'', ''8'', ''8'', [], []] \<in> set rows" by simp
  from bench_row_loses_last_set [OF h3] obtain rows2 m2
    where t2: "transcribe_text_to_table bench_line = Inr (rows2, m2)"
      and two: "(\<forall>l \<in> set (split_on newline bench_line). piece_count l \<le> 2)
                \<longrightarrow> m2 = 2 \<and> [''Bench'', ''10'', ''12'', ''warmup''] \<in> set rows2"
    by blast
  from two h4 have "m2 = 2" and "[''Bench'', ''10'', ''12'', ''warmup''] \<in> set rows2" by simp_all
  with t2 t m b' s' h1 h2 h3 h4' show ?thesis by blast
qed

text \<open>
  The claim as stated fails on the text that holds the line alone: the sets are
  \<open>10\<close> and \<open>12\<close>, not \<open>10\<close>, \<open>12\<close> and \<open>15\<close>.
\<close>

theorem bench_row_loses_last_set_counterexample:
  "transcribe_text_to_table bench_line = Inr ([[''Bench'', ''10'', ''12'', ''warmup'']], 2)
   \<and> transcribe_text_to_table bench_line \<noteq> Inr ([[''Bench'', ''10'', ''12'', ''15'', ''warmup'']], 3)"
  by code_simp

text \<open>
  C4, amended. For every line with a slash and a colon after the replacement of periods,
  the set pieces of its row are the numeric-or-empty pieces of the text between the
  first and the second colon (up to the end of the line when there is one colon only),
  padded to \<open>max_sets\<close>; whatever follows a second colon is ignored. The row of the
  line is found at the index given by the number of rows of the lines before it.
\<close>

theorem sets_come_from_text_between_colons:
  assumes "split_on newline text = xs @ l # ys"
      and "CHR ''/'' \<in> set (replace_char (CHR ''.'') (CHR '':'') l)"
      and "CHR '':'' \<in> set (replace_char (CHR ''.'') (CHR '':'') l)"
  shows "\<exists>rows max_sets.
           transcribe_text_to_table text = Inr (rows, max_sets)
           \<and> length (List.map_filter line_parts xs) < length rows
           \<and> row_sets (rows ! length (List.map_filter line_parts xs)) =
               numeric_pieces (second_part (replace_char (CHR ''.'') (CHR '':'') l))
               @ replicate (max_sets - length (numeric_pieces
                   (second_part (replace_char (CHR ''.'') (CHR '':'') l)))) []
           \<and> second_part (replace_char (CHR ''.'') (CHR '':'') l @ CHR '':'' # c)
               = second_part (replace_char (CHR ''.'') (CHR '':'') l)"
proof -
  let ?n = "replace_char (CHR ''.'') (CHR '':'') l"
  let ?p = "(takeWhile (\<lambda>c. c \<noteq> CHR '':'') ?n, second_part ?n)"
  have lp: "line_parts l = Some ?p"
    using assms(2,3) by (simp add: line_parts_eq)
  note r = row_of_line [OF assms(1) lp]
  have "row_sets (map (row_of (count_sets (split_on newline text) 0))
            (List.map_filter line_parts (split_on newline text))
            ! length (List.map_filter line_parts xs)) =
        numeric_pieces (second_part ?n)
        @ replicate (count_sets (split_on newline text) 0
                     - length (numeric_pieces (second_part ?n))) []"
    by (simp only: r(2) row_sets_row_of snd_conv)
  moreover have "length (List.map_filter line_parts xs)
      < length (map (row_of (count_sets (split_on newline text) 0))
            (List.map_filter line_parts (split_on newline text)))"
    using r(1) by simp
  moreover have "second_part (?n @ CHR '':'' # c) = second_part ?n"
    using assms(3) by (rule second_part_ignores_rest)
  ultimately show ?thesis
    using transcribe_text_eq [of "text"] by blast
qed

theorem sets_come_from_text_between_colons_witness:
  "split_on newline decimal_line = [] @ decimal_line # []
   \<and> CHR ''/'' \<in> set (replace_char (CHR ''.'') (CHR '':'') decimal_line)
   \<and> CHR '':'' \<in> set (replace_char (CHR ''.'') (CHR '':'') decimal_line)
   \<and> second_part (replace_char (CHR ''.'') (CHR '':'') decimal_line) = '' 12''
   \<and> (\<exists>rows. transcribe_text_to_table decimal_line = Inr (rows, 1)
         \<and> 0 < length rows \<and> row_sets (rows ! 0) = [''12''])"
proof -
  have h1: "split_on newline decimal_line = [] @ decimal_line # []" by code_simp
  have h2: "CHR ''/'' \<in> set (replace_char (CHR ''.'') (CHR '':'') decimal_line)" by code_simp
  have h3: "CHR '':'' \<in> set (replace_char (CHR ''.'') (CHR '':'') decimal_line)" by code_simp
  have sp: "second_part (replace_char (CHR ''.'') (CHR '':'') decimal_line) = '' 12''"
    by code_simp
  have np: "numeric_pieces '' 12'' = [''12'']" by code_simp
  have e: "transcribe_text_to_table decimal_line = Inr ([[''Bench'', ''12'', []]], 1)"
    by code_simp
  from sets_come_from_text_between_colons [OF h1 h2 h3] obtain rows m
    where t: "transcribe_text_to_table decimal_line = Inr (rows, m)"
      and l: "length (List.map_filter line_parts []) < length rows"
      and r: "row_sets (rows ! length (List.map_filter line_parts [])) =
                numeric_pieces (second_part (replace_char (CHR ''.'') (CHR '':'') decimal_line))
                @ replicate (m - length (numeric_pieces
                    (second_part (replace_char (CHR ''.'') (CHR '':'') decimal_line)))) []"
    by blast
  from t e have m: "m = 1" by simp
  from l have l': "0 < length rows" by (simp add: List.map_filter_simps)
  from r have "row_sets (rows ! 0) = [''12'']"
    unfolding sp np m by (simp add: List.map_filter_simps)
  with t m l' h1 h2 h3 sp show ?thesis by blast
qed

text \<open>
  The claim as stated fails on a decimal weight: the row has the single set \<open>12\<close>,
  where the text after the first colon would give the sets \<open>15\<close> and \<open>20\<close>.
\<close>

theorem sets_come_from_text_between_colons_counterexample:
  "transcribe_text_to_table decimal_line = Inr ([[''Bench'', ''12'', []]], 1)
   \<and> numeric_pieces (after_first_colon (replace_char (CHR ''.'') (CHR '':'') decimal_line))
       = [''15'', ''20'']"
  by code_simp

text \<open>
  C5, amended. For every processed line with parts \<open>p0\<close> and \<open>p1\<close>, the note of its
  row is the text of \<open>p1\<close> after its first opening parenthesis, up to the next
  parenthesis of either kind or the end of \<open>p1\<close>; it is empty when \<open>p1\<close> has no
  opening parenthesis.
\<close>

theorem note_is_text_after_first_paren:
  assumes "split_on newline text = xs @ l # ys"
      and "line_parts l = Some (p0, p1)"
  shows "\<exists>rows max_sets.
           transcribe_text_to_table text = Inr (rows, max_sets)
           \<and> length (List.map_filter line_parts xs) < length rows
           \<and> last (rows ! length (List.map_filter line_parts xs)) =
               (if CHR ''('' \<in> set p1
                then takeWhile (\<lambda>c. c \<noteq> CHR ''('' \<and> c \<noteq> CHR '')'')
                       (tl (dropWhile (\<lambda>c. c \<noteq> CHR ''('') p1))
                else [])"
proof -
  note r = row_of_line [OF assms]
  have "last (map (row_of (count_sets (split_on newline text) 0))
            (List.map_filter line_parts (split_on newline text))
            ! length (List.map_filter line_parts xs)) = note_text p1"
    by (simp only: r(2) last_row_of snd_conv)
  moreover have "length (List.map_filter line_parts xs)
      < length (map (row_of (count_sets (split_on newline text) 0))
            (List.map_filter line_parts (split_on newline text)))"
    using r(1) by simp
  ultimately show ?thesis
    using transcribe_text_eq [of "text"] unfolding note_text_def by blast
qed

theorem note_is_text_after_first_paren_witness:
  "split_on newline sample_text
     = [] @ ''Bench: 10/12/15 (warmup)'' # [''Squat: 8/8'', ''Row: 1/2/3'']
   \<and> line_parts ''Bench: 10/12/15 (warmup)'' = Some (''Bench'', '' 10/12/15 (warmup)'')
   \<and> (\<exists>rows max_sets. transcribe_text_to_table sample_text = Inr (rows, max_sets)
         \<and> 0 < length rows \<and> last (rows ! 0) = ''warmup'')"
proof -
  have n: "(if CHR ''('' \<in> set '' 10/12/15 (warmup)''
            then takeWhile (\<lambda>c. c \<noteq> CHR ''('' \<and> c \<noteq> CHR '')'')
                   (tl (dropWhile (\<lambda>c. c \<noteq> CHR ''('') '' 10/12/15 (warmup)''))
            else []) = ''warmup''"
    by code_simp
  from note_is_text_after_first_paren [OF sample_text_lines bench_parts] obtain rows m
    where t: "transcribe_text_to_table sample_text = Inr (rows, m)"
      and l: "length (List.map_filter line_parts []) < length rows"
      and r: "last (rows ! length (List.map_filter line_parts [])) =
                (if CHR ''('' \<in> set '' 10/12/15 (warmup)''
                 then takeWhile (\<lambda>c. c \<noteq> CHR ''('' \<and> c \<noteq> CHR '')'')
                        (tl (dropWhile (\<lambda>c. c \<noteq> CHR ''('') '' 10/12/15 (warmup)''))
                 else [])"
    by blast
  from l have l': "0 < length rows" by (simp add: List.map_filter_simps)
  from r have "last (rows ! 0) = ''warmup''"
    unfolding n by (simp add: List.map_filter_simps)
  with t l' sample_text_lines bench_parts show ?thesis by blast
qed

text \<open>
  The claim as stated fails on a second part with an opening parenthesis and no closing
  one: the note is \<open>warmup\<close>, not empty.
\<close>

theorem note_is_text_after_first_paren_counterexample:
  "line_parts open_paren_line = Some (''Bench'', '' 10/12 (warmup'')
   \<and> CHR ''('' \<in> set '' 10/12 (warmup''
   \<and> CHR '')'' \<notin> set '' 10/12 (warmup''
   \<and> transcribe_text_to_table open_paren_line = Inr ([[''Bench'', ''10'', ''warmup'']], 1)"
  by code_simp

text \<open>
  C10, amended. For every text, no note of a row contains a period, and none contains a
  colon either: the note is taken from the text between the first and the second colon
  of the line after the replacement, so a period inside the parentheses ends the note.
\<close>

theorem note_has_no_period_or_colon:
  "\<exists>rows max_sets.
     transcribe_text_to_table text = Inr (rows, max_sets)
     \<and> (\<forall>row \<in> set rows. CHR ''.'' \<notin> set (last row) \<and> CHR '':'' \<notin> set (last row))"
proof -
  let ?lines = "split_on newline text"
  let ?m = "count_sets ?lines 0"
  let ?rows = "map (row_of ?m) (List.map_filter line_parts ?lines)"
  have "CHR ''.'' \<notin> set (last row) \<and> CHR '':'' \<notin> set (last row)" if "row \<in> set ?rows" for row
  proof -
    from that obtain l p where l: "line_parts l = Some p" and r: "row = row_of ?m p"
      by (auto simp: set_map_filter)
    let ?n = "replace_char (CHR ''.'') (CHR '':'') l"
    have p: "snd p = second_part ?n"
      using l by (auto simp: line_parts_eq split: if_splits)
    have sub: "set (last row) \<subseteq> set (second_part ?n)"
      using set_note_text [of "snd p"] by (simp add: r last_row_of p)
    have "CHR ''.'' \<notin> set (second_part ?n)"
      using set_second_part [of ?n] no_period_after_replace [of l] by blast
    with sub second_part_no_colon [of ?n] show ?thesis by blast
  qed
  then show ?thesis by (simp add: transcribe_text_eq)
qed

theorem note_has_no_period_or_colon_witness:
  "\<exists>rows. transcribe_text_to_table sample_text = Inr (rows, 3) \<and> rows \<noteq> []
      \<and> (\<forall>row \<in> set rows. CHR ''.'' \<notin> set (last row) \<and> CHR '':'' \<notin> set (last row))"
  using note_has_no_period_or_colon [of sample_text] by (auto simp: sample_text_table)

text \<open>
  The claim as stated fails on a note with a period: the note is \<open>a\<close>, the period
  does not come out as a colon.
\<close>

theorem note_has_no_period_or_colon_counterexample:
  "transcribe_text_to_table period_note_line = Inr ([[''Bench'', ''10'', ''a'']], 1)
   \<and> transcribe_text_to_table period_note_line \<noteq> Inr ([[''Bench'', ''10'', ''a:b'']], 1)"
  by code_simp

section \<open>The title and date\<close>

text \<open>
  C3. The claim asks for the first line that looks like a date. The code assigns the date
  at every such line until the loop stops, while the title is guarded by
  \<open>not workout_title\<close>: on a text with two date lines before the title line the
  second one is reported.
\<close>

theorem later_date_replaces_earlier:
  "looks_like_date (strip (lower ''1 Jan''))
   \<and> looks_like_date (strip (lower ''2 Feb''))
   \<and> extract_workout_title_and_date two_dates_text = ''2 Feb - Leg Day''"
  by code_simp

section \<open>The workbook\<close>




lemma merged_set_cell: "set_cell r c v ws = Inr ws' \<Longrightarrow> merged_cells ws' = merged_cells ws"
  by (cases v) (auto simp: set_cell_def split: sum.splits)

lemma merged_merge_cells [simp]:
  "merged_cells (merge_cells r1 c1 r2 c2 ws) = merged_cells ws @ [(r1, c1, r2, c2)]"
  by (simp add: merge_cells_def)

lemma merged_write_headers:
  "write_headers r c titles ws = Inr ws' \<Longrightarrow> merged_cells ws' = merged_cells ws"
proof (induction titles arbitrary: c ws)
  case Nil
  then show ?case by simp
next
  case (Cons t titles)
  then show ?case by (fastforce split: sum.splits dest: merged_set_cell)
qed

lemma merged_write_row:
  "write_row lim fl cols r c vs ws = Inr ws' \<Longrightarrow> merged_cells ws' = merged_cells ws"
proof (induction vs arbitrary: c ws)
  case Nil
  then show ?case by simp
next
  case (Cons v vs)
  from Cons.prems obtain x ws1 where
    s: "set_cell r c x ws = Inr ws1"
    and w: "write_row lim fl cols r (c + 1) vs ws1 = Inr ws'"
    by (auto split: if_splits sum.splits)
  from Cons.IH [OF w] merged_set_cell [OF s] show ?case by simp
qed

lemma merged_write_rows:
  "write_rows lim fl cols r rows ws = Inr ws' \<Longrightarrow> merged_cells ws' = merged_cells ws"
proof (induction rows arbitrary: r ws)
  case Nil
  then show ?case by simp
next
  case (Cons row rows)
  from Cons.prems obtain ws1 where
    a: "write_row lim fl cols r 1 row ws = Inr ws1"
    and b: "write_rows lim fl cols (r + 1) rows ws1 = Inr ws'"
    by (auto split: sum.splits)
  from Cons.IH [OF b] merged_write_row [OF a] show ?case by simp
qed

lemma merged_write_documents:
  "write_documents lim fl r docs ws = Inr ws' \<Longrightarrow>
     map column_span (merged_cells ws') =
       map column_span (merged_cells ws)
       @ map (\<lambda>doc. (1, length (columns (fst doc)) + 1)) docs"
proof (induction docs arbitrary: r ws)
  case Nil
  then show ?case by simp
next
  case (Cons doc docs)
  obtain df sheet_name header where doc: "doc = (df, sheet_name, header)"
    by (cases doc)
  from Cons.prems obtain ws1 ws3 ws4 where
    a: "set_cell r 1 (StrValue header) ws = Inr ws1"
    and b: "write_headers (r + 1) 1 (columns df)
              (merge_cells r 1 r (length (columns df) + 1) ws1) = Inr ws3"
    and c: "write_rows lim fl (columns df) (r + 2) (df_values df) ws3 = Inr ws4"
    and d: "write_documents lim fl (r + 2 + length (df_values df) + 3) docs ws4 = Inr ws'"
    by (auto simp: doc Let_def split: sum.splits)
  have "merged_cells ws4 = merged_cells ws @ [(r, 1, r, length (columns df) + 1)]"
    using merged_write_rows [OF c] merged_write_headers [OF b] merged_set_cell [OF a] by simp
  with Cons.IH [OF d] show ?case
    by (simp add: doc column_span_def)
qed

lemma length_df_columns: "length (df_columns max_sets) = max_sets + 2"
  by (simp add: df_columns_def)

text \<open>
  In every workbook the merged range of a document goes from column 1 to the number of
  its columns plus one, which for the columns of line 232 is \<open>max_sets + 3\<close>.
\<close>

lemma title_merge_spans:
  assumes "create_excel max_digits to_float dataframes = Inr ws"
  shows "map column_span (merged_cells ws) =
           map (\<lambda>doc. (1, length (columns (fst doc)) + 1)) dataframes
         \<and> length (df_columns max_sets) + 1 = max_sets + 3"
  using merged_write_documents [OF assms [unfolded create_excel_def]]
  by (simp add: length_df_columns)

text \<open>
  C6. The claim asks for a merge over columns 1 to \<open>max_sets + 2\<close>, the width of the
  table. For an upload whose text is the line \<open>Squat: 8/8/8\<close> the table has three set
  columns and five columns in all, and the title row is merged over columns 1 to 6.
\<close>

theorem title_row_merged_one_column_late:
  "transcribe_text_to_table ''Squat: 8/8/8'' = Inr ([[''Squat'', ''8'', ''8'', ''8'', []]], 3)
   \<and> index echo_services POST [\<lparr>filename = ''a.jpg'', content = ''Squat: 8/8/8''\<rparr>] =
       (SendFile
          \<lparr>cells = [((1, 1), StrValue ''Squat: 8/8/8 - Workout''),
                    ((2, 1), StrValue ''Exercise''), ((2, 2), StrValue ''Set 1''),
                    ((2, 3), StrValue ''Set 2''), ((2, 4), StrValue ''Set 3''),
                    ((2, 5), StrValue ''Extra Info''),
                    ((3, 1), StrValue ''Squat''), ((3, 2), IntValue 8), ((3, 3), IntValue 8),
                    ((3, 4), IntValue 8), ((3, 5), StrValue [])],
           merged_cells = [(1, 1, 1, 6)]\<rparr>,
        [Saved ''a.jpg'', TextDetected ''a.jpg'', Parsed ''a.jpg'', Composed])"
  by code_simp















section \<open>The request handler\<close>

text \<open>
  C9. A POST request with an empty list of files is answered with status 400 and the
  body \<open>{"error": "No files received"}\<close>, and the handler has saved, detected, parsed
  and composed nothing.
\<close>

theorem no_files_is_client_error:
  "index sv POST [] = (Json 400 [(''error'', ''No files received'')], [])"
  by (simp add: index_def)

end
